theory Spec2Isabelle
  imports Complex_Main "HOL-Library.AList"
begin

section \<open>Python values\<close>

text \<open>
  Python integers are unbounded: \<open>int\<close>. Python floats (the zoom factor and the sampling
  probabilities) are modelled as exact rationals: the model computes the quotients and sums the
  code writes, without the rounding of IEEE doubles. Every exception the code can raise is a
  value of \<open>py_error\<close>.
\<close>

datatype py_error =
    ZeroDivisionError
  | UnboundLocalError string
  | KeyError string
  | ValueError
  | CvError

section \<open>utils.py: the transform pipeline\<close>
















section \<open>label_balancer.py: configuration and names\<close>

text \<open>
  The module globals. \<open>TOTAL_MULTIPLIER = (MULTIPLIER*2) + 1\<close> is computed once, when the
  module is loaded with \<open>MULTIPLIER = 6\<close>; the command line may rebind \<open>THETA\<close>,
  \<open>FACT\<close>, \<open>MULTIPLIER\<close> and the two folder names afterwards, and never
  \<open>TOTAL_MULTIPLIER\<close>.
\<close>

record config =
  THETA :: int
  FACT :: rat
  MULTIPLIER :: int
  TOTAL_MULTIPLIER :: int
  DATASET_NAME :: string
  DEST_FOLDER :: string

definition default_config :: config where
  "default_config =
     \<lparr>THETA = 5, FACT = 13 / 10, MULTIPLIER = 6, TOTAL_MULTIPLIER = (6 * 2) + 1,
      DATASET_NAME = ''flow_600_200'', DEST_FOLDER = ''balanced_data''\<rparr>"

text \<open>
  A path is the directory and the name in it: \<open>os.listdir\<close> returns names without a
  separator, so \<open>os.path.basename(os.path.join(d, f))\<close> is \<open>f\<close>.
\<close>

type_synonym path = "string \<times> string"

definition os_path_join :: "string \<Rightarrow> string \<Rightarrow> path" where
  "os_path_join d f = (d, f)"

definition os_path_basename :: "path \<Rightarrow> string" where
  "os_path_basename p = snd p"

text \<open>\<open>s.split('_')[0]\<close>: the text before the first underscore, all of it when there is none.\<close>

definition split0 :: "string \<Rightarrow> string" where
  "split0 s = takeWhile (\<lambda>c. c \<noteq> CHR ''_'') s"

text \<open>The decimal text an f-string gives a non-negative integer.\<close>

fun str_nat :: "nat \<Rightarrow> string" where
  "str_nat n =
     (if n < 10 then [''0123456789'' ! n]
      else str_nat (n div 10) @ [''0123456789'' ! (n mod 10)])"

declare str_nat.simps [simp del]

definition new_file_name_of :: "string \<Rightarrow> string \<Rightarrow> nat \<Rightarrow> nat \<Rightarrow> string \<Rightarrow> string" where
  "new_file_name_of basename formatted_date site_index i label =
     split0 basename @ ''_D'' @ formatted_date @ ''_'' @ formatted_date @ ''_''
       @ str_nat site_index @ ''_'' @ str_nat i @ ''_ROT_AUG_'' @ label @ ''.JPG''"

section \<open>label_balancer.py: DataAugmentation\<close>

text \<open>
  A Python \<open>dict\<close> keeps its keys in insertion order: an association list, read with
  \<open>map_of\<close> and written with \<open>AList.update\<close> (which replaces the value of a present key in
  place and appends an absent one).

  The first loop of \<open>DataAugmentation\<close>: count the images of each site id and collect their
  full paths. (\<open>total_files\<close> is never read and is left out.)
\<close>

fun count_sites ::
  "string \<Rightarrow> string list \<Rightarrow> (string \<times> int) list \<Rightarrow> (string \<times> path list) list
     \<Rightarrow> py_error + ((string \<times> int) list \<times> (string \<times> path list) list)" where
  "count_sites label_dir [] site_ids_count site_path = Inr (site_ids_count, site_path)"
| "count_sites label_dir (file_name # image_list) site_ids_count site_path =
     (let full_file_path = os_path_join label_dir file_name;
          site_id = split0 file_name
      in case map_of site_ids_count site_id of
           Some c \<Rightarrow>
             (case map_of site_path site_id of
                None \<Rightarrow> Inl (KeyError site_id)
              | Some ps \<Rightarrow>
                  count_sites label_dir image_list
                    (AList.update site_id (c + 1) site_ids_count)
                    (AList.update site_id (ps @ [full_file_path]) site_path))
         | None \<Rightarrow>
             count_sites label_dir image_list
               (AList.update site_id 1 site_ids_count)
               (AList.update site_id [full_file_path] site_path))"

text \<open>\<open>sorted(dict.items(), key=lambda item: item[1])\<close>: a stable sort on the counts.\<close>

definition SortDict :: "(string \<times> int) list \<Rightarrow> (string \<times> int) list" where
  "SortDict d = sort_key snd d"

text \<open>
  The scheduler's effects are the calls of \<open>cv.imwrite\<close>, in order: each records the
  destination path, the source image and the variant \<open>(theta, fact, flipped)\<close> handed to
  \<open>Data_augmentation\<close>. Reading, transforming and writing an image are taken to succeed.
\<close>

record write_call =
  w_dest :: path
  w_site :: path
  w_theta :: int
  w_fact :: rat
  w_flipped :: bool

record aug_state =
  counter :: int
  written :: "write_call list"

record variant_vars =
  v_switch :: int
  v_theta :: int
  v_fact :: rat
  v_switch_ended :: int

text \<open>How a loop ends: it runs out (\<open>Next\<close>), the function returns, or an exception is raised.\<close>

datatype 'a flow = Next 'a | Return 'a | Raise py_error 'a

fun flow_state :: "'a flow \<Rightarrow> 'a" where
  "flow_state (Next s) = s"
| "flow_state (Return s) = s"
| "flow_state (Raise e s) = s"

definition augment_and_write :: "path \<Rightarrow> path \<Rightarrow> variant_vars \<Rightarrow> bool \<Rightarrow> aug_state \<Rightarrow> aug_state" where
  "augment_and_write new_destination site v flipped st =
     st\<lparr>written := written st @
           [\<lparr>w_dest = new_destination, w_site = site, w_theta = v_theta v,
             w_fact = v_fact v, w_flipped = flipped\<rparr>],
        counter := counter st + 1\<rparr>"

text \<open>The loop \<open>for i in range(MULTIPLIER*2)\<close> over one image.\<close>

fun variant_loop ::
  "int \<Rightarrow> string \<Rightarrow> string \<Rightarrow> string \<Rightarrow> path \<Rightarrow> nat \<Rightarrow> nat list \<Rightarrow> variant_vars \<Rightarrow> aug_state
     \<Rightarrow> aug_state flow" where
  "variant_loop images_to_aumgment formatted_date dest_dir label site site_index [] v st = Next st"
| "variant_loop images_to_aumgment formatted_date dest_dir label site site_index (i # range_rest) v st =
     (let basename = os_path_basename site;
          new_file_name = new_file_name_of basename formatted_date site_index i label;
          new_destination = os_path_join dest_dir new_file_name
      in if counter st > images_to_aumgment then Return st
         else
           (let st' = (if v_switch v = - 1 then augment_and_write new_destination site v False st
                       else if v_switch v = 1 then augment_and_write new_destination site v True st
                       else st);
                v' = v\<lparr>v_switch := v_switch v * - 1,
                       v_theta := (if v_switch_ended v mod 2 = 0 then v_theta v + 5 else v_theta v),
                       v_fact := (if v_switch_ended v mod 2 = 0 then v_fact v + 3 / 10 else v_fact v),
                       v_switch_ended := v_switch_ended v + 1\<rparr>
            in variant_loop images_to_aumgment formatted_date dest_dir label site site_index
                 range_rest v' st'))"

text \<open>The loop \<open>for site in site_path[element[0]]\<close> over the images of one site group.\<close>

fun image_loop ::
  "config \<Rightarrow> int \<Rightarrow> string \<Rightarrow> string \<Rightarrow> string \<Rightarrow> path list \<Rightarrow> nat \<Rightarrow> aug_state \<Rightarrow> aug_state flow" where
  "image_loop cfg images_to_aumgment formatted_date dest_dir label [] site_index st = Next st"
| "image_loop cfg images_to_aumgment formatted_date dest_dir label (site # sites) site_index st =
     (case variant_loop images_to_aumgment formatted_date dest_dir label site site_index
             [0 ..< nat (MULTIPLIER cfg * 2)]
             \<lparr>v_switch = - 1, v_theta = THETA cfg, v_fact = FACT cfg, v_switch_ended = 1\<rparr> st of
        Next st' \<Rightarrow>
          image_loop cfg images_to_aumgment formatted_date dest_dir label sites (site_index + 1) st'
      | Return st' \<Rightarrow> Return st'
      | Raise e st' \<Rightarrow> Raise e st')"

text \<open>The loop \<open>for element in sorted_list\<close> over the site groups.\<close>

fun site_loop ::
  "config \<Rightarrow> int \<Rightarrow> string \<Rightarrow> string \<Rightarrow> string \<Rightarrow> (string \<times> path list) list
     \<Rightarrow> (string \<times> int) list \<Rightarrow> aug_state \<Rightarrow> aug_state flow" where
  "site_loop cfg images_to_aumgment formatted_date dest_dir label site_path [] st = Next st"
| "site_loop cfg images_to_aumgment formatted_date dest_dir label site_path (element # sorted_rest) st =
     (case map_of site_path (fst element) of
        None \<Rightarrow> Raise (KeyError (fst element)) st
      | Some sites \<Rightarrow>
          (case image_loop cfg images_to_aumgment formatted_date dest_dir label sites 0 st of
             Next st' \<Rightarrow>
               site_loop cfg images_to_aumgment formatted_date dest_dir label site_path sorted_rest st'
           | Return st' \<Rightarrow> Return st'
           | Raise e st' \<Rightarrow> Raise e st'))"

text \<open>
  \<open>DataAugmentation(images_to_aumgment, label_dir, dest_dir, label)\<close>; \<open>image_list\<close> is
  what \<open>os.listdir(label_dir)\<close> returns and \<open>formatted_date\<close> what the clock gives.
\<close>

definition DataAugmentation ::
  "config \<Rightarrow> string \<Rightarrow> string list \<Rightarrow> int \<Rightarrow> string \<Rightarrow> string \<Rightarrow> string \<Rightarrow> aug_state flow" where
  "DataAugmentation cfg formatted_date image_list images_to_aumgment label_dir dest_dir label =
     (case count_sites label_dir image_list [] [] of
        Inl e \<Rightarrow> Raise e \<lparr>counter = 1, written = []\<rparr>
      | Inr (site_ids_count, site_path) \<Rightarrow>
          (let sorted_list = SortDict site_ids_count
           in site_loop cfg images_to_aumgment formatted_date dest_dir label site_path sorted_list
                \<lparr>counter = 1, written = []\<rparr>))"

section \<open>label_balancer.py: LabelBalancer\<close>

text \<open>The input tree: the listings of the six label directories \<open>1\<close> .. \<open>6\<close>.\<close>

record dataset =
  dir_1 :: "string list"
  dir_2 :: "string list"
  dir_3 :: "string list"
  dir_4 :: "string list"
  dir_5 :: "string list"
  dir_6 :: "string list"

text \<open>
  Modelled from the spec: \<open>Copy_dir\<close> is called by \<open>LabelBalancer\<close> and defined in neither
  source file. The spec describes it as a structure-preserving copy of a label directory into
  the destination tree: the destination directory lists the files of the source directory.
\<close>

definition Copy_dir :: "string list \<Rightarrow> string list" where
  "Copy_dir listing = listing"

text \<open>\<open>cv.imwrite\<close> on the listing of a directory: it creates the file or overwrites it.\<close>

definition cv_imwrite :: "string list \<Rightarrow> string \<Rightarrow> string list" where
  "cv_imwrite listing file_name =
     (if file_name \<in> set listing then listing else listing @ [file_name])"

text \<open>Python's \<open>/\<close> on integers and on floats raises on a zero divisor.\<close>

definition py_truediv :: "int \<Rightarrow> int \<Rightarrow> py_error + rat" where
  "py_truediv a b = (if b = 0 then Inl ZeroDivisionError else Inr (of_int a / of_int b))"

definition py_fdiv :: "rat \<Rightarrow> rat \<Rightarrow> py_error + rat" where
  "py_fdiv a b = (if b = 0 then Inl ZeroDivisionError else Inr (a / b))"

definition py_bind :: "py_error + 'a \<Rightarrow> ('a \<Rightarrow> py_error + 'b) \<Rightarrow> py_error + 'b" where
  "py_bind m f = (case m of Inl e \<Rightarrow> Inl e | Inr x \<Rightarrow> f x)"

text \<open>
  The complementary probabilities and their normalisation, written twice in the source (once
  in each branch, with the counts of the category being augmented).
\<close>

definition label_probabilities :: "int list \<Rightarrow> int \<Rightarrow> py_error + rat list" where
  "label_probabilities count_split category_count =
     py_bind (py_truediv (count_split ! 0) category_count) (\<lambda>q1.
     py_bind (py_truediv (count_split ! 1) category_count) (\<lambda>q2.
     py_bind (py_truediv (count_split ! 2) category_count) (\<lambda>q3.
       (let p_label_1 = 1 - q1;
            p_label_2 = 1 - q2;
            p_label_3 = 1 - q3;
            p_total = p_label_1 + p_label_2 + p_label_3
        in py_bind (py_fdiv p_label_1 p_total) (\<lambda>p1.
           py_bind (py_fdiv p_label_2 p_total) (\<lambda>p2.
           py_bind (py_fdiv p_label_3 p_total) (\<lambda>p3.
             Inr [p1, p2, p3])))))))"

text \<open>
  \<open>np.random.choice(a, size, p=p, replace=True)\<close> raises \<open>ValueError\<close> on a negative size,
  on probabilities that are negative, that are not one for each element of \<open>a\<close> or that do not
  sum to 1; otherwise it returns \<open>size\<close> elements of \<open>a\<close>, none of probability zero. What it
  returns in a run is the argument \<open>sample\<close>, an input of the model; \<open>is_choice\<close> says what
  every returned sample satisfies.
\<close>

definition np_random_choice :: "int list \<Rightarrow> int \<Rightarrow> rat list \<Rightarrow> int list \<Rightarrow> py_error + int list" where
  "np_random_choice a size_arg p sample =
     (if size_arg < 0 \<or> length p \<noteq> length a \<or> list_ex (\<lambda>x. x < 0) p \<or> sum_list p \<noteq> 1
      then Inl ValueError else Inr sample)"

definition is_choice :: "int list \<Rightarrow> int \<Rightarrow> rat list \<Rightarrow> int list \<Rightarrow> bool" where
  "is_choice a size_arg p sample \<longleftrightarrow>
     int (length sample) = size_arg \<and>
     list_all (\<lambda>x. list_ex (\<lambda>(y, q). y = x \<and> 0 < q) (zip a p)) sample"

text \<open>\<open>[sample.count(1), sample.count(2), sample.count(3)]\<close>.\<close>

definition images_to_aug_per_label_of :: "int list \<Rightarrow> int list" where
  "images_to_aug_per_label_of sample =
     [int (count_list sample 1), int (count_list sample 2), int (count_list sample 3)]"

text \<open>
  How a run ends, and the destination tree it leaves: the listings of the destination
  directories \<open>1\<close> .. \<open>6\<close>, or no directory at all when nothing has been written.
\<close>

datatype run_status = Completed | AbortedInfeasible | Raised py_error

record run_result =
  status :: run_status
  dest :: "string list list"

text \<open>
  One submitted task: the scheduler runs on a source directory and its \<open>cv.imwrite\<close> calls
  land in the destination directory. An exception inside a task is caught when its future is
  read, and only printed. The three tasks work on three different directories, so their
  interleaving does not matter and they are run one after the other.
\<close>

definition run_task ::
  "config \<Rightarrow> string \<Rightarrow> string list list \<Rightarrow> int list \<Rightarrow> nat \<Rightarrow> string list list \<Rightarrow> string list list" where
  "run_task cfg formatted_date all_label_dirs images_to_aug_per_label i dest_tree =
     (let fl = DataAugmentation cfg formatted_date (all_label_dirs ! i)
                 (images_to_aug_per_label ! i)
                 (DATASET_NAME cfg @ ''/'' @ str_nat (i + 1))
                 (DEST_FOLDER cfg @ ''/'' @ str_nat (i + 1))
                 (''L'' @ str_nat (i + 1))
      in dest_tree[i := foldl cv_imwrite (dest_tree ! i)
                          (map (\<lambda>w. snd (w_dest w)) (written (flow_state fl)))])"

text \<open>
  \<open>LabelBalancer\<close>. Here \<open>all_label_dirs\<close> holds, for each of the six label directories,
  what \<open>os.listdir\<close> returns for it (the source tree does not change during a run), and the
  destination tree is taken to be empty before the run; the working directory is left out of
  the directory names. In the branch \<open>category_1_count > category_2_count\<close> the statement
  \<open>print(images_to_aug_per_label[0] + category_1_count_split[0])\<close> reads a local variable
  that only the other branch assigns; what follows it in that branch is never reached.
\<close>

definition LabelBalancer :: "config \<Rightarrow> string \<Rightarrow> dataset \<Rightarrow> int list \<Rightarrow> run_result" where
  "LabelBalancer cfg formatted_date ds sample =
     (let all_label_dirs = [dir_1 ds, dir_2 ds, dir_3 ds, dir_4 ds, dir_5 ds, dir_6 ds];
          category_1_list = [all_label_dirs ! 0, all_label_dirs ! 1, all_label_dirs ! 2];
          category_1_images = concat category_1_list;
          category_1_count = int (length category_1_images);
          category_2_list = [all_label_dirs ! 3, all_label_dirs ! 4, all_label_dirs ! 5];
          category_2_images = concat category_2_list;
          category_2_count = int (length category_2_images)
      in if category_1_count > category_2_count then
           (let images_to_augment = category_1_count - category_2_count
            in if category_1_count * TOTAL_MULTIPLIER cfg < images_to_augment
               then \<lparr>status = AbortedInfeasible, dest = []\<rparr>
               else
                 (let copied = map Copy_dir all_label_dirs;
                      category_2_count_split = map (\<lambda>l. int (length l)) category_2_list
                  in case py_bind (label_probabilities category_2_count_split category_2_count)
                            (\<lambda>p. np_random_choice [1, 2, 3] images_to_augment p sample) of
                       Inl e \<Rightarrow> \<lparr>status = Raised e, dest = copied\<rparr>
                     | Inr smp \<Rightarrow>
                         \<lparr>status = Raised (UnboundLocalError ''category_1_count_split''),
                          dest = copied\<rparr>))
         else
           (let images_to_augment = category_2_count - category_1_count
            in if category_1_count * TOTAL_MULTIPLIER cfg < images_to_augment
               then \<lparr>status = AbortedInfeasible, dest = []\<rparr>
               else
                 (let copied = map Copy_dir all_label_dirs;
                      category_1_count_split = map (\<lambda>l. int (length l)) category_1_list
                  in case py_bind (label_probabilities category_1_count_split category_1_count)
                            (\<lambda>p. np_random_choice [1, 2, 3] images_to_augment p sample) of
                       Inl e \<Rightarrow> \<lparr>status = Raised e, dest = copied\<rparr>
                     | Inr smp \<Rightarrow>
                         (let images_to_aug_per_label = images_to_aug_per_label_of smp
                          in \<lparr>status = Completed,
                              dest = foldl (\<lambda>tree i. run_task cfg formatted_date all_label_dirs
                                                       images_to_aug_per_label i tree)
                                       copied [0, 1, 2]\<rparr>))))"

text \<open>The number of images in the two categories of a destination tree.\<close>

definition category_1_output :: "string list list \<Rightarrow> nat" where
  "category_1_output tree = sum_list (map length (take 3 tree))"

definition category_2_output :: "string list list \<Rightarrow> nat" where
  "category_2_output tree = sum_list (map length (take 3 (drop 3 tree)))"

text \<open>The two category counts of an input tree, as \<open>LabelBalancer\<close> computes them.\<close>

definition category_1_count_of :: "dataset \<Rightarrow> int" where
  "category_1_count_of ds = int (length (dir_1 ds) + length (dir_2 ds) + length (dir_3 ds))"

definition category_2_count_of :: "dataset \<Rightarrow> int" where
  "category_2_count_of ds = int (length (dir_4 ds) + length (dir_5 ds) + length (dir_6 ds))"

text \<open>
  The feasibility gate in the words of the specification: the count of the non-deficient
  (larger) category, times the total multiplier, is less than the deficit.
\<close>

definition spec_feasibility_gate :: "int \<Rightarrow> int \<Rightarrow> int \<Rightarrow> bool" where
  "spec_feasibility_gate total_multiplier count_1 count_2 \<longleftrightarrow>
     (if count_1 > count_2 then count_1 else count_2) * total_multiplier < \<bar>count_1 - count_2\<bar>"

text \<open>The number of images of a label directory that share the site id of a given image.\<close>

definition site_size :: "string list \<Rightarrow> path \<Rightarrow> nat" where
  "site_size image_list p =
     length (filter (\<lambda>f. split0 f = split0 (os_path_basename p)) image_list)"

text \<open>
  What the first loop of \<open>DataAugmentation\<close> keeps true while it reads a listing: after
  the files \<open>seen\<close>, the two dictionaries have the site ids of those files as their keys,
  each once; the count of a site id is the number of files seen with it, and its paths are
  those files in listing order.
\<close>

definition dict_inv ::
  "string \<Rightarrow> string list \<Rightarrow> (string \<times> int) list \<Rightarrow> (string \<times> path list) list \<Rightarrow> bool" where
  "dict_inv d seen cnt pth \<longleftrightarrow>
     distinct (map fst cnt) \<and>
     (\<forall>sid. map_of cnt sid =
        (if sid \<in> split0 ` set seen
         then Some (int (length (filter (\<lambda>f. split0 f = sid) seen))) else None)) \<and>
     (\<forall>sid. map_of pth sid =
        (if sid \<in> split0 ` set seen
         then Some (map (os_path_join d) (filter (\<lambda>f. split0 f = sid) seen)) else None))"

text \<open>
  What running at most \<open>n\<close> variant iterations from the state \<open>st\<close> does to the scheduler:
  the counter grows by one per written image, up to \<open>n\<close> and never past
  \<open>images_to_aumgment + 1\<close>; an early return happens only with the counter past the target;
  no exception is raised.
\<close>

definition advances :: "int \<Rightarrow> nat \<Rightarrow> aug_state \<Rightarrow> aug_state flow \<Rightarrow> bool" where
  "advances tgt n st r \<longleftrightarrow>
     counter (flow_state r) = min (counter st + int n) (max (counter st) (tgt + 1)) \<and>
     int (length (written (flow_state r))) - counter (flow_state r)
       = int (length (written st)) - counter st \<and>
     (\<forall>st'. r = Return st' \<longrightarrow> tgt < counter st') \<and>
     (\<forall>e st'. r \<noteq> Raise e st')"

text \<open>
  An input tree on the boundary of the feasibility gate: one image in label 1, fourteen in
  label 4, the other labels empty.
\<close>

definition gate_boundary_dataset :: dataset where
  "gate_boundary_dataset = \<lparr>dir_1 = [''3_a.JPG''], dir_2 = [], dir_3 = [],
        dir_4 = [''7_00.JPG'', ''7_01.JPG'', ''7_02.JPG'', ''7_03.JPG'', ''7_04.JPG'', ''7_05.JPG'', ''7_06.JPG'', ''7_07.JPG'', ''7_08.JPG'', ''7_09.JPG'', ''7_10.JPG'', ''7_11.JPG'', ''7_12.JPG'', ''7_13.JPG''],
        dir_5 = [], dir_6 = []\<rparr>"

section \<open>The transform pipeline keeps even shapes\<close>










section \<open>The feasibility gate and the two branches of LabelBalancer\<close>

lemma status_case_sum [simp]:
  "status (case m of Inl e \<Rightarrow> f e | Inr x \<Rightarrow> g x) =
     (case m of Inl e \<Rightarrow> status (f e) | Inr x \<Rightarrow> status (g x))"
  by (cases m) simp_all

lemma dest_case_sum [simp]:
  "dest (case m of Inl e \<Rightarrow> f e | Inr x \<Rightarrow> g x) =
     (case m of Inl e \<Rightarrow> dest (f e) | Inr x \<Rightarrow> dest (g x))"
  by (cases m) simp_all

text \<open>\<open>LabelBalancer\<close> with its local variables replaced by the two category counts.\<close>

lemma LabelBalancer_counts:
  "LabelBalancer cfg formatted_date ds sample =
     (let c1 = category_1_count_of ds; c2 = category_2_count_of ds;
          copied = [dir_1 ds, dir_2 ds, dir_3 ds, dir_4 ds, dir_5 ds, dir_6 ds]
      in if c1 > c2 then
           (if c1 * TOTAL_MULTIPLIER cfg < c1 - c2
            then \<lparr>status = AbortedInfeasible, dest = []\<rparr>
            else (case py_bind (label_probabilities
                        [int (length (dir_4 ds)), int (length (dir_5 ds)), int (length (dir_6 ds))] c2)
                        (\<lambda>p. np_random_choice [1, 2, 3] (c1 - c2) p sample) of
                    Inl e \<Rightarrow> \<lparr>status = Raised e, dest = copied\<rparr>
                  | Inr smp \<Rightarrow> \<lparr>status = Raised (UnboundLocalError ''category_1_count_split''),
                                dest = copied\<rparr>))
         else
           (if c1 * TOTAL_MULTIPLIER cfg < c2 - c1
            then \<lparr>status = AbortedInfeasible, dest = []\<rparr>
            else (case py_bind (label_probabilities
                        [int (length (dir_1 ds)), int (length (dir_2 ds)), int (length (dir_3 ds))] c1)
                        (\<lambda>p. np_random_choice [1, 2, 3] (c2 - c1) p sample) of
                    Inl e \<Rightarrow> \<lparr>status = Raised e, dest = copied\<rparr>
                  | Inr smp \<Rightarrow>
                      \<lparr>status = Completed,
                       dest = foldl (\<lambda>tree i. run_task cfg formatted_date copied
                                                (images_to_aug_per_label_of smp) i tree)
                                copied [0, 1, 2]\<rparr>)))"
proof -
  have e1: "int (length (concat [dir_1 ds, dir_2 ds, dir_3 ds])) = category_1_count_of ds"
    by (simp add: category_1_count_of_def)
  have e2: "int (length (concat [dir_4 ds, dir_5 ds, dir_6 ds])) = category_2_count_of ds"
    by (simp add: category_2_count_of_def)
  show ?thesis
    unfolding LabelBalancer_def Let_def
    by (simp only: nth_Cons_0 nth_Cons_Suc nth_Cons_numeral numeral_2_eq_2 numeral_3_eq_3 One_nat_def
          e1 e2 list.map Copy_dir_def eval_nat_numeral diff_Suc_1 pred_numeral_simps arith_simps)
qed

lemma gate_iff:
  "status (LabelBalancer cfg formatted_date ds sample) = AbortedInfeasible \<longleftrightarrow>
     category_1_count_of ds * TOTAL_MULTIPLIER cfg
       < \<bar>category_1_count_of ds - category_2_count_of ds\<bar>"
  unfolding LabelBalancer_counts Let_def
  by (simp split: sum.splits)

lemma gate_dest:
  "status (LabelBalancer cfg formatted_date ds sample) = AbortedInfeasible \<Longrightarrow>
     dest (LabelBalancer cfg formatted_date ds sample) = []"
  unfolding LabelBalancer_counts Let_def
  by (simp split: sum.splits if_splits)

text \<open>
  C2, as amended. The balancer aborts the run, leaving no destination directory, exactly when
  \<open>category_1_count * TOTAL_MULTIPLIER < deficit\<close>, where the deficit is the absolute
  difference of the two category counts: in both branches the count multiplied is that of
  category 1, which is the larger category in the first branch and the category to be
  augmented in the second.
\<close>

theorem abort_iff_category_1_gate:
  "(status (LabelBalancer cfg formatted_date ds sample) = AbortedInfeasible \<longleftrightarrow>
      category_1_count_of ds * TOTAL_MULTIPLIER cfg
        < \<bar>category_1_count_of ds - category_2_count_of ds\<bar>) \<and>
   (status (LabelBalancer cfg formatted_date ds sample) = AbortedInfeasible \<longrightarrow>
      dest (LabelBalancer cfg formatted_date ds sample) = [])"
  using gate_iff [of cfg formatted_date ds sample] gate_dest [of cfg formatted_date ds sample]
  by blast

text \<open>
  Witness for C2 as amended: one image in category 1 and fifteen in category 2; \<open>1 * 13 < 14\<close>,
  the run aborts and nothing is written.
\<close>

theorem abort_iff_category_1_gate_witness:
  "status (LabelBalancer default_config ''110326''
       \<lparr>dir_1 = [''3_a.JPG''], dir_2 = [], dir_3 = [],
        dir_4 = [''7_00.JPG'', ''7_01.JPG'', ''7_02.JPG'', ''7_03.JPG'', ''7_04.JPG'', ''7_05.JPG'', ''7_06.JPG'', ''7_07.JPG'', ''7_08.JPG'', ''7_09.JPG'', ''7_10.JPG'', ''7_11.JPG'', ''7_12.JPG'', ''7_13.JPG'', ''7_14.JPG''],
        dir_5 = [], dir_6 = []\<rparr> [])
     = AbortedInfeasible \<and>
   dest (LabelBalancer default_config ''110326''
       \<lparr>dir_1 = [''3_a.JPG''], dir_2 = [], dir_3 = [],
        dir_4 = [''7_00.JPG'', ''7_01.JPG'', ''7_02.JPG'', ''7_03.JPG'', ''7_04.JPG'', ''7_05.JPG'', ''7_06.JPG'', ''7_07.JPG'', ''7_08.JPG'', ''7_09.JPG'', ''7_10.JPG'', ''7_11.JPG'', ''7_12.JPG'', ''7_13.JPG'', ''7_14.JPG''],
        dir_5 = [], dir_6 = []\<rparr> []) = []"
  using abort_iff_category_1_gate [of default_config "''110326''"
      "\<lparr>dir_1 = [''3_a.JPG''], dir_2 = [], dir_3 = [],
        dir_4 = [''7_00.JPG'', ''7_01.JPG'', ''7_02.JPG'', ''7_03.JPG'', ''7_04.JPG'', ''7_05.JPG'', ''7_06.JPG'', ''7_07.JPG'', ''7_08.JPG'', ''7_09.JPG'', ''7_10.JPG'', ''7_11.JPG'', ''7_12.JPG'', ''7_13.JPG'', ''7_14.JPG''],
        dir_5 = [], dir_6 = []\<rparr>" "[]"]
  by (simp add: category_1_count_of_def category_2_count_of_def default_config_def)

text \<open>
  Counterexample to C2 as stated: with one image in category 1 and fifteen in category 2 the
  run aborts, although the count of the non-deficient category 2 times the total multiplier,
  \<open>15 * 13\<close>, is not less than the deficit 14.
\<close>

theorem abort_gate_counterexample:
  "status (LabelBalancer default_config ''110326''
       \<lparr>dir_1 = [''3_a.JPG''], dir_2 = [], dir_3 = [],
        dir_4 = [''7_00.JPG'', ''7_01.JPG'', ''7_02.JPG'', ''7_03.JPG'', ''7_04.JPG'', ''7_05.JPG'', ''7_06.JPG'', ''7_07.JPG'', ''7_08.JPG'', ''7_09.JPG'', ''7_10.JPG'', ''7_11.JPG'', ''7_12.JPG'', ''7_13.JPG'', ''7_14.JPG''],
        dir_5 = [], dir_6 = []\<rparr> [])
     = AbortedInfeasible \<and>
   \<not> spec_feasibility_gate (TOTAL_MULTIPLIER default_config)
       (category_1_count_of
       \<lparr>dir_1 = [''3_a.JPG''], dir_2 = [], dir_3 = [],
        dir_4 = [''7_00.JPG'', ''7_01.JPG'', ''7_02.JPG'', ''7_03.JPG'', ''7_04.JPG'', ''7_05.JPG'', ''7_06.JPG'', ''7_07.JPG'', ''7_08.JPG'', ''7_09.JPG'', ''7_10.JPG'', ''7_11.JPG'', ''7_12.JPG'', ''7_13.JPG'', ''7_14.JPG''],
        dir_5 = [], dir_6 = []\<rparr>)
       (category_2_count_of
       \<lparr>dir_1 = [''3_a.JPG''], dir_2 = [], dir_3 = [],
        dir_4 = [''7_00.JPG'', ''7_01.JPG'', ''7_02.JPG'', ''7_03.JPG'', ''7_04.JPG'', ''7_05.JPG'', ''7_06.JPG'', ''7_07.JPG'', ''7_08.JPG'', ''7_09.JPG'', ''7_10.JPG'', ''7_11.JPG'', ''7_12.JPG'', ''7_13.JPG'', ''7_14.JPG''],
        dir_5 = [], dir_6 = []\<rparr>)"
  by (simp add: LabelBalancer_counts category_1_count_of_def category_2_count_of_def Let_def
      default_config_def spec_feasibility_gate_def)

text \<open>
  C10. In the branch where the count of category 1 is strictly greater than that of category 2,
  and for every total multiplier of at least 1, the gate's comparison
  \<open>category_1_count * TOTAL_MULTIPLIER < category_1_count - category_2_count\<close> is false, and
  the run does not end in the infeasibility abort.
\<close>

theorem gate_unreachable_category_1_larger:
  assumes "1 \<le> TOTAL_MULTIPLIER cfg" "category_2_count_of ds < category_1_count_of ds"
  shows "\<not> category_1_count_of ds * TOTAL_MULTIPLIER cfg
             < category_1_count_of ds - category_2_count_of ds
     \<and> status (LabelBalancer cfg formatted_date ds sample) \<noteq> AbortedInfeasible"
proof -
  have "0 \<le> category_1_count_of ds" by (simp add: category_1_count_of_def)
  then have "category_1_count_of ds * 1 \<le> category_1_count_of ds * TOTAL_MULTIPLIER cfg"
    using assms(1) by (intro mult_left_mono) simp_all
  moreover have "0 \<le> category_2_count_of ds" by (simp add: category_2_count_of_def)
  ultimately have g: "\<not> category_1_count_of ds * TOTAL_MULTIPLIER cfg
      < category_1_count_of ds - category_2_count_of ds"
    by linarith
  then show ?thesis using assms(2) by (simp add: gate_iff)
qed

text \<open>Witness for C10: two images in category 1, one in category 2, the default multiplier 13.\<close>

theorem gate_unreachable_category_1_larger_witness:
  "1 \<le> TOTAL_MULTIPLIER default_config \<and>
   category_2_count_of \<lparr>dir_1 = [''1_a.JPG'', ''1_b.JPG''], dir_2 = [], dir_3 = [], dir_4 = [''2_a.JPG''], dir_5 = [], dir_6 = []\<rparr> < category_1_count_of \<lparr>dir_1 = [''1_a.JPG'', ''1_b.JPG''], dir_2 = [], dir_3 = [], dir_4 = [''2_a.JPG''], dir_5 = [], dir_6 = []\<rparr> \<and>
   status (LabelBalancer default_config ''110326''
       \<lparr>dir_1 = [''1_a.JPG'', ''1_b.JPG''], dir_2 = [], dir_3 = [], dir_4 = [''2_a.JPG''], dir_5 = [], dir_6 = []\<rparr> [1])
     \<noteq> AbortedInfeasible"
  using gate_unreachable_category_1_larger [of default_config
      "\<lparr>dir_1 = [''1_a.JPG'', ''1_b.JPG''], dir_2 = [], dir_3 = [], dir_4 = [''2_a.JPG''], dir_5 = [], dir_6 = []\<rparr>" "''110326''" "[1]"]
  by (simp add: category_1_count_of_def category_2_count_of_def default_config_def)

section \<open>The sampling probabilities and the allocation\<close>

lemma halves_sum: "a + b + c = (2 :: rat) \<Longrightarrow> a / 2 + b / 2 + c / 2 = 1"
  by (simp add: add_divide_distrib [symmetric])

lemma nth3: "[a, b, c] ! 0 = a" "[a, b, c] ! 1 = b" "[a, b, c] ! 2 = c"
  by simp_all

lemma complements_sum:
  assumes "0 < n1 + n2 + n3"
  shows "(1 - of_int n1 / of_int (n1 + n2 + n3)) + (1 - of_int n2 / of_int (n1 + n2 + n3))
           + (1 - of_int n3 / of_int (n1 + n2 + n3)) = (2 :: rat)"
proof -
  let ?N = "of_int (n1 + n2 + n3) :: rat"
  have N: "?N \<noteq> 0" using assms by simp
  have "(of_int n1 + of_int n2 + of_int n3) / ?N = 1" using N by simp
  then have "of_int n1 / ?N + of_int n2 / ?N + of_int n3 / ?N = 1"
    by (simp only: add_divide_distrib)
  then show ?thesis by linarith
qed

lemma label_probabilities_eq:
  assumes "0 < n1 + n2 + n3"
  shows "label_probabilities [n1, n2, n3] (n1 + n2 + n3) =
     Inr [(1 - of_int n1 / of_int (n1 + n2 + n3)) / 2,
          (1 - of_int n2 / of_int (n1 + n2 + n3)) / 2,
          (1 - of_int n3 / of_int (n1 + n2 + n3)) / 2]"
proof -
  let ?N = "of_int (n1 + n2 + n3) :: rat"
  note tot = complements_sum [OF assms]
  have d: "py_truediv n (n1 + n2 + n3) = Inr (of_int n / ?N)" for n
    using assms by (simp add: py_truediv_def)
  have f: "py_fdiv x 2 = Inr (x / 2)" for x
    by (simp add: py_fdiv_def)
  show ?thesis
    by (simp only: label_probabilities_def nth3 d py_bind_def sum.case Let_def tot f)
qed



lemma probs_valid:
  assumes "0 \<le> n1" "0 \<le> n2" "0 \<le> n3" "0 < n1 + n2 + n3" "0 \<le> k"
  shows "py_bind (label_probabilities [n1, n2, n3] (n1 + n2 + n3))
           (\<lambda>p. np_random_choice [1, 2, 3] k p sample) = Inr sample"
proof -
  let ?N = "of_int (n1 + n2 + n3) :: rat"
  let ?w = "\<lambda>n. 1 - of_int n / ?N"
  have N: "0 < ?N" using assms(4) by simp
  have tot: "?w n1 + ?w n2 + ?w n3 = 2" by (rule complements_sum [OF assms(4)])
  have sum1: "?w n1 / 2 + ?w n2 / 2 + ?w n3 / 2 = 1" using tot by (rule halves_sum)
  have le: "0 \<le> n \<Longrightarrow> n \<le> n1 + n2 + n3 \<Longrightarrow> 0 \<le> ?w n / 2" for n
    using N by (simp add: divide_le_eq)
  have nn: "0 \<le> ?w n1 / 2" "0 \<le> ?w n2 / 2" "0 \<le> ?w n3 / 2"
    using assms by (auto intro!: le)
  show ?thesis
    using nn sum1 assms(5)
    by (simp add: label_probabilities_eq [OF assms(4)] py_bind_def np_random_choice_def not_less)
qed




section \<open>The branch where category 1 is larger\<close>

text \<open>
  C4, as amended. In the branch where category 1 has more images than category 2, for every
  input past the feasibility gate whose category 2 is not empty, the run raises the
  unbound-name error for \<open>category_1_count_split\<close>: the six original directories have been
  copied and no augmentation task has been dispatched, so the destination holds the originals
  only.
\<close>

theorem category_1_larger_raises_unbound:
  assumes "category_2_count_of ds < category_1_count_of ds"
    and "0 < category_2_count_of ds"
    and "\<not> category_1_count_of ds * TOTAL_MULTIPLIER cfg
            < category_1_count_of ds - category_2_count_of ds"
  shows "LabelBalancer cfg formatted_date ds sample =
     \<lparr>status = Raised (UnboundLocalError ''category_1_count_split''),
      dest = [dir_1 ds, dir_2 ds, dir_3 ds, dir_4 ds, dir_5 ds, dir_6 ds]\<rparr>"
proof -
  have c2: "category_2_count_of ds =
      int (length (dir_4 ds)) + int (length (dir_5 ds)) + int (length (dir_6 ds))"
    by (simp add: category_2_count_of_def)
  have "py_bind (label_probabilities
            [int (length (dir_4 ds)), int (length (dir_5 ds)), int (length (dir_6 ds))]
            (category_2_count_of ds))
          (\<lambda>p. np_random_choice [1, 2, 3] (category_1_count_of ds - category_2_count_of ds) p sample)
        = Inr sample"
    unfolding c2 using assms(1,2) by (intro probs_valid) (simp_all add: c2)
  then show ?thesis
    using assms(1,3) by (simp add: LabelBalancer_counts Let_def)
qed

text \<open>Witness for C4 as amended: two images in category 1 and one in category 2.\<close>

theorem category_1_larger_raises_unbound_witness:
  "category_2_count_of \<lparr>dir_1 = [''1_a.JPG'', ''1_b.JPG''], dir_2 = [], dir_3 = [], dir_4 = [''2_a.JPG''], dir_5 = [], dir_6 = []\<rparr> < category_1_count_of \<lparr>dir_1 = [''1_a.JPG'', ''1_b.JPG''], dir_2 = [], dir_3 = [], dir_4 = [''2_a.JPG''], dir_5 = [], dir_6 = []\<rparr> \<and>
   0 < category_2_count_of \<lparr>dir_1 = [''1_a.JPG'', ''1_b.JPG''], dir_2 = [], dir_3 = [], dir_4 = [''2_a.JPG''], dir_5 = [], dir_6 = []\<rparr> \<and>
   LabelBalancer default_config ''110326''
       \<lparr>dir_1 = [''1_a.JPG'', ''1_b.JPG''], dir_2 = [], dir_3 = [], dir_4 = [''2_a.JPG''], dir_5 = [], dir_6 = []\<rparr> [1]
     = \<lparr>status = Raised (UnboundLocalError ''category_1_count_split''),
        dest = [[''1_a.JPG'', ''1_b.JPG''], [], [], [''2_a.JPG''], [], []]\<rparr>"
  using category_1_larger_raises_unbound [of
      "\<lparr>dir_1 = [''1_a.JPG'', ''1_b.JPG''], dir_2 = [], dir_3 = [], dir_4 = [''2_a.JPG''], dir_5 = [], dir_6 = []\<rparr>"
      default_config "''110326''" "[1]"]
  by (simp add: category_1_count_of_def category_2_count_of_def default_config_def)

text \<open>
  Counterexample to C4 as stated: with one image in category 1 and none in category 2 the run
  takes the branch, passes the gate and raises \<open>ZeroDivisionError\<close> at
  \<open>category_2_count_split[0] / category_2_count\<close>, before the print is reached.
\<close>

theorem category_2_empty_counterexample:
  "category_2_count_of \<lparr>dir_1 = [''1_a.JPG''], dir_2 = [], dir_3 = [], dir_4 = [], dir_5 = [], dir_6 = []\<rparr>
     < category_1_count_of \<lparr>dir_1 = [''1_a.JPG''], dir_2 = [], dir_3 = [], dir_4 = [], dir_5 = [], dir_6 = []\<rparr> \<and>
   \<not> category_1_count_of \<lparr>dir_1 = [''1_a.JPG''], dir_2 = [], dir_3 = [], dir_4 = [], dir_5 = [], dir_6 = []\<rparr> * TOTAL_MULTIPLIER default_config
       < category_1_count_of \<lparr>dir_1 = [''1_a.JPG''], dir_2 = [], dir_3 = [], dir_4 = [], dir_5 = [], dir_6 = []\<rparr> - category_2_count_of \<lparr>dir_1 = [''1_a.JPG''], dir_2 = [], dir_3 = [], dir_4 = [], dir_5 = [], dir_6 = []\<rparr> \<and>
   LabelBalancer default_config ''110326''
       \<lparr>dir_1 = [''1_a.JPG''], dir_2 = [], dir_3 = [], dir_4 = [], dir_5 = [], dir_6 = []\<rparr> [1]
     = \<lparr>status = Raised ZeroDivisionError, dest = [[''1_a.JPG''], [], [], [], [], []]\<rparr>"
  by (simp add: LabelBalancer_counts category_1_count_of_def category_2_count_of_def Let_def
      default_config_def label_probabilities_def py_bind_def py_truediv_def)

section \<open>The scheduler: when it stops\<close>

lemma variant_loop_frozen:
  "tgt < counter st \<Longrightarrow>
     variant_loop tgt date dd lab site k l v st = (if l = [] then Next st else Return st)"
  by (cases l) simp_all

lemma image_loop_frozen:
  "tgt < counter st \<Longrightarrow>
     image_loop cfg tgt date dd lab sites k st = Next st \<or>
     image_loop cfg tgt date dd lab sites k st = Return st"
  by (induction sites arbitrary: k) (simp_all add: variant_loop_frozen)

lemma site_loop_frozen:
  "tgt < counter st \<Longrightarrow> flow_state (site_loop cfg tgt date dd lab sp els st) = st"
proof (induction els)
  case Nil
  then show ?case by simp
next
  case (Cons e els)
  show ?case
  proof (cases "map_of sp (fst e)")
    case None
    then show ?thesis by simp
  next
    case (Some sites)
    from image_loop_frozen [OF Cons.prems, of cfg date dd lab sites 0]
    show ?thesis using Some Cons by auto
  qed
qed

text \<open>
  C9. For every source directory and every target count that is zero or negative, the scheduler
  writes no file: the counter starts at 1, which already exceeds the target.
\<close>

theorem no_writes_for_nonpositive_target:
  assumes "tgt \<le> 0"
  shows "written (flow_state (DataAugmentation cfg date image_list tgt label_dir dest_dir lab)) = []"
proof -
  have "tgt < counter \<lparr>counter = 1, written = []\<rparr>" using assms by simp
  from site_loop_frozen [OF this] show ?thesis
    by (simp add: DataAugmentation_def Let_def split: sum.splits prod.splits)
qed

text \<open>Witness for C9: the specification's scenario D, a target of 0 on four images.\<close>

theorem no_writes_for_nonpositive_target_witness:
  "(0 :: int) \<le> 0 \<and>
   written (flow_state (DataAugmentation default_config ''110326''
      [''23_a.JPG'', ''23_b.JPG'', ''23_c.JPG'', ''23_d.JPG''] 0
      ''flow_600_200/1'' ''balanced_data/1'' ''L1'')) = []"
  using no_writes_for_nonpositive_target [of 0 default_config "''110326''"
      "[''23_a.JPG'', ''23_b.JPG'', ''23_c.JPG'', ''23_d.JPG'']"
      "''flow_600_200/1''" "''balanced_data/1''" "''L1''"]
  by simp

section \<open>The scheduler: the site dictionaries\<close>

lemma dict_inv_step:
  assumes "dict_inv d seen cnt pth"
  shows "\<exists>cnt' pth'. count_sites d [f] cnt pth = Inr (cnt', pth') \<and>
           count_sites d (f # fs) cnt pth = count_sites d fs cnt' pth' \<and>
           dict_inv d (seen @ [f]) cnt' pth'"
proof (cases "split0 f \<in> split0 ` set seen")
  case True
  let ?c = "int (length (filter (\<lambda>g. split0 g = split0 f) seen))"
  let ?ps = "map (os_path_join d) (filter (\<lambda>g. split0 g = split0 f) seen)"
  have c: "map_of cnt (split0 f) = Some ?c" and p: "map_of pth (split0 f) = Some ?ps"
    using assms True unfolding dict_inv_def by simp_all
  let ?cnt = "AList.update (split0 f) (?c + 1) cnt"
  let ?pth = "AList.update (split0 f) (?ps @ [os_path_join d f]) pth"
  have "dict_inv d (seen @ [f]) ?cnt ?pth"
    using assms unfolding dict_inv_def
    by (auto simp: update_conv' distinct_update)
  then show ?thesis using c p by (simp add: Let_def)
next
  case False
  have c: "map_of cnt (split0 f) = None"
    using assms False unfolding dict_inv_def by simp
  let ?cnt = "AList.update (split0 f) 1 cnt"
  let ?pth = "AList.update (split0 f) [os_path_join d f] pth"
  have ne: "split0 x \<noteq> split0 f" if "x \<in> set seen" for x
  proof
    assume "split0 x = split0 f"
    then have "split0 f \<in> split0 ` set seen" using that by (metis imageI)
    with False show "False" by simp
  qed
  have emp: "filter (\<lambda>g. split0 g = split0 f) seen = []"
    using ne by (simp add: filter_empty_conv)
  have "dict_inv d (seen @ [f]) ?cnt ?pth"
    using assms False emp unfolding dict_inv_def
    by (auto simp: update_conv' distinct_update)
  then show ?thesis using c by (simp add: Let_def)
qed

lemma count_sites_inv:
  "dict_inv d seen cnt pth \<Longrightarrow>
     \<exists>cnt' pth'. count_sites d fs cnt pth = Inr (cnt', pth') \<and> dict_inv d (seen @ fs) cnt' pth'"
proof (induction fs arbitrary: seen cnt pth)
  case Nil
  then show ?case by simp
next
  case (Cons f fs)
  from dict_inv_step [OF Cons.prems, of f fs] obtain cnt1 pth1 where
    st: "count_sites d (f # fs) cnt pth = count_sites d fs cnt1 pth1"
    and inv: "dict_inv d (seen @ [f]) cnt1 pth1" by blast
  from Cons.IH [OF inv] show ?case using st by simp
qed

lemma count_sites_ok:
  "\<exists>cnt pth. count_sites d fs [] [] = Inr (cnt, pth) \<and> dict_inv d fs cnt pth"
  using count_sites_inv [of d "[]" "[]" "[]" fs] by (simp add: dict_inv_def)

section \<open>The scheduler: the order of the writes\<close>

lemma variant_loop_sites:
  "\<exists>ws. written (flow_state (variant_loop tgt date dd lab site k l v st)) = written st @ ws
        \<and> (\<forall>w \<in> set ws. w_site w = site)"
proof (induction l arbitrary: v st)
  case Nil
  then show ?case by simp
next
  case (Cons i l)
  show ?case
  proof (cases "tgt < counter st")
    case True
    then show ?thesis by simp
  next
    case False
    let ?dst = "os_path_join dd (new_file_name_of (os_path_basename site) date k i lab)"
    let ?st = "if v_switch v = - 1 then augment_and_write ?dst site v False st
               else if v_switch v = 1 then augment_and_write ?dst site v True st else st"
    have a: "\<exists>ws. written ?st = written st @ ws \<and> (\<forall>w \<in> set ws. w_site w = site)"
      by (simp add: augment_and_write_def)
    then obtain ws1 where ws1: "written ?st = written st @ ws1" "\<forall>w \<in> set ws1. w_site w = site"
      by blast
    let ?v = "v\<lparr>v_switch := v_switch v * - 1,
                 v_theta := (if v_switch_ended v mod 2 = 0 then v_theta v + 5 else v_theta v),
                 v_fact := (if v_switch_ended v mod 2 = 0 then v_fact v + 3 / 10 else v_fact v),
                 v_switch_ended := v_switch_ended v + 1\<rparr>"
    from Cons.IH [of ?v ?st] obtain ws2 where
      ws2: "written (flow_state (variant_loop tgt date dd lab site k l ?v ?st)) = written ?st @ ws2"
        "\<forall>w \<in> set ws2. w_site w = site" by blast
    have "variant_loop tgt date dd lab site k (i # l) v st
        = variant_loop tgt date dd lab site k l ?v ?st"
      using False by (simp add: Let_def)
    then show ?thesis using ws1 ws2
      by (intro exI [of _ "ws1 @ ws2"]) auto
  qed
qed

lemma image_loop_sites:
  "\<exists>ws. written (flow_state (image_loop cfg tgt date dd lab sites k st)) = written st @ ws
        \<and> (\<forall>w \<in> set ws. w_site w \<in> set sites)"
proof (induction sites arbitrary: k st)
  case Nil
  then show ?case by simp
next
  case (Cons site sites)
  let ?r = "variant_loop tgt date dd lab site k [0 ..< nat (MULTIPLIER cfg * 2)]
              \<lparr>v_switch = - 1, v_theta = THETA cfg, v_fact = FACT cfg, v_switch_ended = 1\<rparr> st"
  from variant_loop_sites [of tgt date dd lab site k _ _ st] obtain ws1 where
    ws1: "written (flow_state ?r) = written st @ ws1" "\<forall>w \<in> set ws1. w_site w = site"
    by blast
  show ?case
  proof (cases ?r)
    case (Next st1)
    from Cons.IH [of "k + 1" st1] obtain ws2 where
      ws2: "written (flow_state (image_loop cfg tgt date dd lab sites (k + 1) st1)) = written st1 @ ws2"
        "\<forall>w \<in> set ws2. w_site w \<in> set sites" by blast
    show ?thesis using Next ws1 ws2
      by (intro exI [of _ "ws1 @ ws2"]) auto
  next
    case (Return st1)
    then show ?thesis using ws1 by (intro exI [of _ ws1]) auto
  next
    case (Raise e st1)
    then show ?thesis using ws1 by (intro exI [of _ ws1]) auto
  qed
qed

lemma site_loop_sorted:
  assumes "sorted (map snd els)"
    and "\<forall>e \<in> set els. \<forall>ps. map_of sp (fst e) = Some ps \<longrightarrow> (\<forall>p \<in> set ps. K p = snd e)"
  shows "\<exists>ws. written (flow_state (site_loop cfg tgt date dd lab sp els st)) = written st @ ws
        \<and> sorted (map (\<lambda>w. K (w_site w)) ws)
        \<and> (\<forall>w \<in> set ws. \<exists>e \<in> set els. K (w_site w) = snd e)"
  using assms
proof (induction els arbitrary: st)
  case Nil
  then show ?case by simp
next
  case (Cons e els)
  show ?case
  proof (cases "map_of sp (fst e)")
    case None
    then show ?thesis by simp
  next
    case (Some sites)
    let ?r = "image_loop cfg tgt date dd lab sites 0 st"
    from image_loop_sites [of cfg tgt date dd lab sites 0 st] obtain ws1 where
      ws1: "written (flow_state ?r) = written st @ ws1" "\<forall>w \<in> set ws1. w_site w \<in> set sites"
      by blast
    have k1: "\<forall>w \<in> set ws1. K (w_site w) = snd e"
      using ws1(2) Cons.prems(2) Some by auto
    then have s1: "sorted (map (\<lambda>w. K (w_site w)) ws1)"
      by (induction ws1) auto
    show ?thesis
    proof (cases ?r)
      case (Next st1)
      have "sorted (map snd els)" using Cons.prems(1) by simp
      moreover have "\<forall>e \<in> set els. \<forall>ps. map_of sp (fst e) = Some ps \<longrightarrow> (\<forall>p \<in> set ps. K p = snd e)"
        using Cons.prems(2) by simp
      ultimately obtain ws2 where
        ws2: "written (flow_state (site_loop cfg tgt date dd lab sp els st1)) = written st1 @ ws2"
          "sorted (map (\<lambda>w. K (w_site w)) ws2)"
          "\<forall>w \<in> set ws2. \<exists>e \<in> set els. K (w_site w) = snd e"
        using Cons.IH [of st1] by blast
      have le: "\<forall>x \<in> set ws1. \<forall>y \<in> set ws2. K (w_site x) \<le> K (w_site y)"
        using k1 ws2(3) Cons.prems(1) by fastforce
      have "sorted (map (\<lambda>w. K (w_site w)) (ws1 @ ws2))"
        using s1 ws2(2) le by (auto simp: sorted_append)
      then show ?thesis using Next Some ws1 ws2 k1
        by (intro exI [of _ "ws1 @ ws2"]) auto
    next
      case (Return st1)
      then show ?thesis using Some ws1 s1 k1 by (intro exI [of _ ws1]) auto
    next
      case (Raise err st1)
      then show ?thesis using Some ws1 s1 k1 by (intro exI [of _ ws1]) auto
    qed
  qed
qed

text \<open>
  C8. For every label directory, the scheduler works through the site groups in ascending order
  of their image count. The list it iterates over, \<open>SortDict site_ids_count\<close>, is sorted by
  the counts, and each count is the number of listed images with that site id; and along the
  sequence of images it writes, the size of the site group of the source image never
  decreases, so every write from a site group with strictly fewer images comes before every
  write from a site group with strictly more.
\<close>

theorem writes_ordered_by_site_size:
  "(\<exists>site_ids_count site_path.
      count_sites label_dir image_list [] [] = Inr (site_ids_count, site_path) \<and>
      sorted (map snd (SortDict site_ids_count)) \<and>
      list_all (\<lambda>e. snd e = int (length (filter (\<lambda>f. split0 f = fst e) image_list)))
        (SortDict site_ids_count)) \<and>
   sorted (map (\<lambda>w. site_size image_list (w_site w))
     (written (flow_state (DataAugmentation cfg date image_list tgt label_dir dest_dir lab))))"
proof -
  from count_sites_ok [of label_dir image_list] obtain cnt pth where
    cs: "count_sites label_dir image_list [] [] = Inr (cnt, pth)"
    and inv: "dict_inv label_dir image_list cnt pth" by blast
  let ?K = "\<lambda>p. int (site_size image_list p)"
  have srt: "sorted (map snd (SortDict cnt))"
    by (simp add: SortDict_def)
  have cnts: "snd e = int (length (filter (\<lambda>f. split0 f = fst e) image_list))"
    if e: "e \<in> set (SortDict cnt)" for e
  proof -
    from e have "e \<in> set cnt" by (simp add: SortDict_def)
    then have ein: "(fst e, snd e) \<in> set cnt" by simp
    have dist: "distinct (map fst cnt)" using inv unfolding dict_inv_def by simp
    have "map_of cnt (fst e) = Some (snd e)"
      by (rule map_of_is_SomeI [OF dist ein])
    then show ?thesis
      using inv unfolding dict_inv_def by (auto split: if_splits)
  qed
  have grp: "\<forall>e \<in> set (SortDict cnt). \<forall>ps. map_of pth (fst e) = Some ps
      \<longrightarrow> (\<forall>p \<in> set ps. ?K p = snd e)"
  proof (intro ballI allI impI)
    fix e ps p
    assume e: "e \<in> set (SortDict cnt)" and ps: "map_of pth (fst e) = Some ps" and p: "p \<in> set ps"
    have "ps = map (os_path_join label_dir) (filter (\<lambda>f. split0 f = fst e) image_list)"
      using inv ps unfolding dict_inv_def by (auto split: if_splits)
    with p have "split0 (os_path_basename p) = fst e"
      by (auto simp: os_path_join_def os_path_basename_def)
    then show "?K p = snd e" using cnts [OF e] by (simp add: site_size_def)
  qed
  from site_loop_sorted [OF srt grp, of cfg tgt date dest_dir lab "\<lparr>counter = 1, written = []\<rparr>"]
  have "sorted (map (\<lambda>w. ?K (w_site w))
     (written (flow_state (DataAugmentation cfg date image_list tgt label_dir dest_dir lab))))"
    using cs by (auto simp: DataAugmentation_def Let_def)
  then have "sorted (map int (map (\<lambda>w. site_size image_list (w_site w))
     (written (flow_state (DataAugmentation cfg date image_list tgt label_dir dest_dir lab)))))"
    by (simp add: comp_def)
  then have writes: "sorted (map (\<lambda>w. site_size image_list (w_site w))
     (written (flow_state (DataAugmentation cfg date image_list tgt label_dir dest_dir lab))))"
    by (simp add: sorted_map)
  have "list_all (\<lambda>e. snd e = int (length (filter (\<lambda>f. split0 f = fst e) image_list)))
      (SortDict cnt)"
    using cnts by (simp add: list_all_iff)
  with cs srt writes show ?thesis by blast
qed

text \<open>
  Witness for C8: site \<open>9\<close> has two images and is listed first, site \<open>5\<close> has one. The sorted
  list is \<open>[(5, 1), (9, 2)]\<close>; with a target of 14 the twelve variants of the image of site
  \<open>5\<close> are written first, then two variants of the first image of site \<open>9\<close>.
\<close>

theorem writes_ordered_by_site_size_witness:
  "(\<exists>site_ids_count site_path.
      count_sites ''flow_600_200/1'' [''9_a.JPG'', ''5_a.JPG'', ''9_b.JPG''] [] []
        = Inr (site_ids_count, site_path) \<and>
      sorted (map snd (SortDict site_ids_count)) \<and>
      list_all (\<lambda>e. snd e = int (length (filter (\<lambda>f. split0 f = fst e)
                  [''9_a.JPG'', ''5_a.JPG'', ''9_b.JPG''])))
        (SortDict site_ids_count)) \<and>
   sorted (map (\<lambda>w. site_size [''9_a.JPG'', ''5_a.JPG'', ''9_b.JPG''] (w_site w))
     (written (flow_state (DataAugmentation default_config ''110326''
        [''9_a.JPG'', ''5_a.JPG'', ''9_b.JPG''] 14 ''flow_600_200/1'' ''balanced_data/1'' ''L1'')))) \<and>
   map_sum id (\<lambda>d. SortDict (fst d))
     (count_sites ''flow_600_200/1'' [''9_a.JPG'', ''5_a.JPG'', ''9_b.JPG''] [] [])
     = Inr [(''5'', 1), (''9'', 2)] \<and>
   map (\<lambda>w. (snd (w_site w), site_size [''9_a.JPG'', ''5_a.JPG'', ''9_b.JPG''] (w_site w)))
     (written (flow_state (DataAugmentation default_config ''110326''
        [''9_a.JPG'', ''5_a.JPG'', ''9_b.JPG''] 14 ''flow_600_200/1'' ''balanced_data/1'' ''L1'')))
     = replicate 12 (''5_a.JPG'', 1) @ replicate 2 (''9_a.JPG'', 2)"
proof -
  note a = writes_ordered_by_site_size [of "''flow_600_200/1''"
      "[''9_a.JPG'', ''5_a.JPG'', ''9_b.JPG'']" default_config "''110326''" 14
      "''balanced_data/1''" "''L1''"]
  have b: "map_sum id (\<lambda>d. SortDict (fst d))
     (count_sites ''flow_600_200/1'' [''9_a.JPG'', ''5_a.JPG'', ''9_b.JPG''] [] [])
     = Inr [(''5'', 1), (''9'', 2)]"
    by code_simp
  have c: "map (\<lambda>w. (snd (w_site w), site_size [''9_a.JPG'', ''5_a.JPG'', ''9_b.JPG''] (w_site w)))
     (written (flow_state (DataAugmentation default_config ''110326''
        [''9_a.JPG'', ''5_a.JPG'', ''9_b.JPG''] 14 ''flow_600_200/1'' ''balanced_data/1'' ''L1'')))
     = replicate 12 (''5_a.JPG'', 1) @ replicate 2 (''9_a.JPG'', 2)"
    by code_simp
  from a b c show ?thesis by blast
qed

section \<open>The scheduler: how many images it writes\<close>

lemma advances_Next: "advances tgt 0 st (Next st)"
  by (simp add: advances_def)

lemma advances_seq:
  "advances tgt n st (Next s1) \<Longrightarrow> advances tgt m s1 r \<Longrightarrow> advances tgt (n + m) st r"
  unfolding advances_def by (auto simp: min_def max_def)

lemma advances_Return:
  "advances tgt n st (Return s1) \<Longrightarrow> advances tgt (n + m) st (Return s1)"
  unfolding advances_def by (auto simp: min_def max_def)

lemma variant_loop_advances:
  "v_switch v = - 1 \<or> v_switch v = 1 \<Longrightarrow>
     advances tgt (length l) st (variant_loop tgt date dd lab site k l v st)"
proof (induction l arbitrary: v st)
  case Nil
  then show ?case by (simp add: advances_Next)
next
  case (Cons i l)
  show ?case
  proof (cases "tgt < counter st")
    case True
    then show ?thesis by (simp add: advances_def)
  next
    case False
    let ?dst = "os_path_join dd (new_file_name_of (os_path_basename site) date k i lab)"
    let ?st = "augment_and_write ?dst site v (v_switch v = 1) st"
    let ?v = "v\<lparr>v_switch := v_switch v * - 1,
                 v_theta := (if v_switch_ended v mod 2 = 0 then v_theta v + 5 else v_theta v),
                 v_fact := (if v_switch_ended v mod 2 = 0 then v_fact v + 3 / 10 else v_fact v),
                 v_switch_ended := v_switch_ended v + 1\<rparr>"
    have step: "variant_loop tgt date dd lab site k (i # l) v st
        = variant_loop tgt date dd lab site k l ?v ?st"
      using False Cons.prems by (auto simp: Let_def)
    have "v_switch ?v = - 1 \<or> v_switch ?v = 1" using Cons.prems by auto
    from Cons.IH [OF this, of ?st]
    have ih: "advances tgt (length l) ?st (variant_loop tgt date dd lab site k l ?v ?st)" .
    have one: "advances tgt 1 st (Next ?st)"
      using False by (simp add: advances_def augment_and_write_def)
    from advances_seq [OF one ih] show ?thesis using step by simp
  qed
qed

lemma image_loop_advances:
  "advances tgt (nat (MULTIPLIER cfg * 2) * length sites) st
     (image_loop cfg tgt date dd lab sites k st)"
proof (induction sites arbitrary: k st)
  case Nil
  then show ?case by (simp add: advances_Next)
next
  case (Cons site sites)
  let ?m = "nat (MULTIPLIER cfg * 2)"
  let ?r = "variant_loop tgt date dd lab site k [0 ..< ?m]
              \<lparr>v_switch = - 1, v_theta = THETA cfg, v_fact = FACT cfg, v_switch_ended = 1\<rparr> st"
  have v: "advances tgt ?m st ?r"
    using variant_loop_advances [of _ tgt "[0 ..< ?m]" st date dd lab site k] by simp
  show ?case
  proof (cases ?r)
    case (Next st1)
    from v Next have "advances tgt ?m st (Next st1)" by simp
    from advances_seq [OF this Cons.IH [of st1 "k + 1"]]
    show ?thesis using Next by simp
  next
    case (Return st1)
    from v Return have "advances tgt ?m st (Return st1)" by simp
    from advances_Return [OF this, of "?m * length sites"]
    show ?thesis using Return by simp
  next
    case (Raise e st1)
    with v show ?thesis by (simp add: advances_def)
  qed
qed

lemma site_loop_advances:
  assumes "\<forall>e \<in> set els. map_of sp (fst e) \<noteq> None"
  shows "advances tgt
       (nat (MULTIPLIER cfg * 2) * sum_list (map (\<lambda>e. length (the (map_of sp (fst e)))) els)) st
       (site_loop cfg tgt date dd lab sp els st)"
  using assms
proof (induction els arbitrary: st)
  case Nil
  then show ?case by (simp add: advances_Next)
next
  case (Cons e els)
  let ?m = "nat (MULTIPLIER cfg * 2)"
  from Cons.prems obtain sites where sites: "map_of sp (fst e) = Some sites" by auto
  let ?r = "image_loop cfg tgt date dd lab sites 0 st"
  let ?rest = "sum_list (map (\<lambda>e. length (the (map_of sp (fst e)))) els)"
  have i: "advances tgt (?m * length sites) st ?r" by (rule image_loop_advances)
  have tot: "?m * sum_list (map (\<lambda>e. length (the (map_of sp (fst e)))) (e # els))
      = ?m * length sites + ?m * ?rest"
    using sites by (simp add: distrib_left)
  show ?case
  proof (cases ?r)
    case (Next st1)
    have "advances tgt (?m * ?rest) st1 (site_loop cfg tgt date dd lab sp els st1)"
      using Cons.IH Cons.prems by simp
    moreover from i Next have "advances tgt (?m * length sites) st (Next st1)" by simp
    ultimately have "advances tgt (?m * length sites + ?m * ?rest) st
        (site_loop cfg tgt date dd lab sp els st1)"
      by (rule advances_seq [rotated])
    then show ?thesis using Next sites tot by simp
  next
    case (Return st1)
    from i Return have "advances tgt (?m * length sites) st (Return st1)" by simp
    from advances_Return [OF this, of "?m * ?rest"]
    show ?thesis using Return sites tot by simp
  next
    case (Raise err st1)
    with i show ?thesis by (simp add: advances_def)
  qed
qed

lemma sum_indicator:
  "distinct ks \<Longrightarrow> a \<in> set ks \<Longrightarrow> sum_list (map (\<lambda>k. if a = k then 1 else 0) ks) = (1::nat)"
  by (induction ks) auto

lemma partition_count:
  assumes "distinct ks" "g ` set xs \<subseteq> set ks"
  shows "sum_list (map (\<lambda>k. length (filter (\<lambda>x. g x = k) xs)) ks) = length xs"
  using assms(2)
proof (induction xs)
  case Nil
  then show ?case by simp
next
  case (Cons x xs)
  have "sum_list (map (\<lambda>k. length (filter (\<lambda>y. g y = k) (x # xs))) ks)
      = sum_list (map (\<lambda>k. (if g x = k then 1 else 0) + length (filter (\<lambda>y. g y = k) xs)) ks)"
    by (intro arg_cong [where f = sum_list] map_cong) auto
  also have "\<dots> = sum_list (map (\<lambda>k. if g x = k then 1 else 0) ks)
      + sum_list (map (\<lambda>k. length (filter (\<lambda>y. g y = k) xs)) ks)"
    by (simp add: sum_list_addf)
  also have "\<dots> = 1 + length xs"
    using Cons sum_indicator [OF assms(1), of "g x"] by simp
  finally show ?case by simp
qed

lemma dict_total:
  assumes "dict_inv d fs cnt pth"
  shows "sum_list (map (\<lambda>e. length (the (map_of pth (fst e)))) (SortDict cnt)) = length fs"
    and "\<forall>e \<in> set (SortDict cnt). map_of pth (fst e) \<noteq> None"
proof -
  have dist: "distinct (map fst cnt)" using assms unfolding dict_inv_def by simp
  have keys: "fst ` set cnt = split0 ` set fs"
  proof -
    have "dom (map_of cnt) = split0 ` set fs"
      using assms unfolding dict_inv_def by (auto simp: dom_def split: if_splits)
    then show ?thesis by (simp add: dom_map_of_conv_image_fst)
  qed
  have len: "length (the (map_of pth (fst e))) = length (filter (\<lambda>f. split0 f = fst e) fs)"
    if "e \<in> set cnt" for e
  proof -
    from that keys have "fst e \<in> split0 ` set fs" by blast
    then show ?thesis using assms unfolding dict_inv_def by simp
  qed
  show "\<forall>e \<in> set (SortDict cnt). map_of pth (fst e) \<noteq> None"
  proof
    fix e assume "e \<in> set (SortDict cnt)"
    then have "e \<in> set cnt" by (simp add: SortDict_def)
    with keys have "fst e \<in> split0 ` set fs" by blast
    then show "map_of pth (fst e) \<noteq> None" using assms unfolding dict_inv_def by simp
  qed
  let ?F = "\<lambda>e. length (the (map_of pth (fst e)))"
  have dc: "distinct cnt" using dist by (rule distinct_map [THEN iffD1, THEN conjunct1])
  have "sum_list (map ?F (SortDict cnt)) = sum ?F (set (SortDict cnt))"
    using dc by (simp add: sum_list_distinct_conv_sum_set SortDict_def)
  also have "\<dots> = sum_list (map ?F cnt)"
    using dc by (simp add: sum_list_distinct_conv_sum_set SortDict_def)
  also have "\<dots> = sum_list (map (\<lambda>e. length (filter (\<lambda>f. split0 f = fst e) fs)) cnt)"
    using len by (intro arg_cong [where f = sum_list] map_cong) auto
  also have "\<dots> = sum_list (map (\<lambda>k. length (filter (\<lambda>f. split0 f = k) fs)) (map fst cnt))"
    by (simp add: comp_def)
  also have "\<dots> = length fs"
    using keys by (intro partition_count [OF dist]) auto
  finally show "sum_list (map ?F (SortDict cnt)) = length fs" .
qed

lemma count_arith:
  "int L = min (1 + int C) (max 1 (t + 1)) - 1 \<Longrightarrow> L = min (nat t) C"
  by arith

lemma DataAugmentation_count:
  "length (written (flow_state (DataAugmentation cfg date image_list tgt label_dir dest_dir lab)))
     = min (nat tgt) (nat (MULTIPLIER cfg * 2) * length image_list)"
proof -
  from count_sites_ok [of label_dir image_list] obtain cnt pth where
    cs: "count_sites label_dir image_list [] [] = Inr (cnt, pth)"
    and inv: "dict_inv label_dir image_list cnt pth" by blast
  let ?st = "\<lparr>counter = 1, written = []\<rparr>"
  let ?r = "site_loop cfg tgt date dest_dir lab pth (SortDict cnt) ?st"
  from site_loop_advances [OF dict_total(2) [OF inv], of tgt cfg ?st date dest_dir lab]
  have "advances tgt (nat (MULTIPLIER cfg * 2) * length image_list) ?st ?r"
    by (simp add: dict_total(1) [OF inv])
  then have "int (length (written (flow_state ?r)))
      = min (1 + int (nat (MULTIPLIER cfg * 2) * length image_list)) (max 1 (tgt + 1)) - 1"
    unfolding advances_def by simp
  then have "length (written (flow_state ?r))
      = min (nat tgt) (nat (MULTIPLIER cfg * 2) * length image_list)"
    by (rule count_arith)
  then show ?thesis using cs by (simp add: DataAugmentation_def Let_def)
qed




section \<open>The balance of the two categories\<close>

lemma imwrite_length: "length (foldl cv_imwrite l ns) \<le> length l + length ns"
proof (induction ns arbitrary: l)
  case Nil
  then show ?case by simp
next
  case (Cons n ns)
  have "length (cv_imwrite l n) \<le> length l + 1" by (simp add: cv_imwrite_def)
  with Cons.IH [of "cv_imwrite l n"] show ?case by simp
qed

lemma DataAugmentation_empty:
  "DataAugmentation cfg date [] tgt label_dir dest_dir lab = Next \<lparr>counter = 1, written = []\<rparr>"
  by (simp add: DataAugmentation_def SortDict_def)

text \<open>
  C1 fails on the code. On the boundary input (one image in category 1, fourteen in category 2)
  the gate lets the run through, since \<open>1 * 13 < 13\<close> is false, and the run completes; but one
  image has only \<open>2 * MULTIPLIER = 12\<close> variants, so whatever the sampler returns, category 1
  of the output holds at most 13 images and category 2 holds 14.
\<close>

theorem balance_fails_at_gate_boundary:
  "status (LabelBalancer default_config date gate_boundary_dataset sample) = Completed \<and>
   category_1_output (dest (LabelBalancer default_config date gate_boundary_dataset sample))
     < category_2_output (dest (LabelBalancer default_config date gate_boundary_dataset sample))"
proof -
  let ?ds = gate_boundary_dataset
  let ?copied = "[dir_1 ?ds, dir_2 ?ds, dir_3 ?ds, dir_4 ?ds, dir_5 ?ds, dir_6 ?ds]"
  let ?alloc = "images_to_aug_per_label_of sample"
  have c1: "category_1_count_of ?ds = 1" and c2: "category_2_count_of ?ds = 14"
    by (simp_all add: category_1_count_of_def category_2_count_of_def gate_boundary_dataset_def)
  have pr: "py_bind (label_probabilities
        [int (length (dir_1 ?ds)), int (length (dir_2 ?ds)), int (length (dir_3 ?ds))] 1)
        (\<lambda>p. np_random_choice [1, 2, 3] (14 - 1) p sample) = Inr sample"
    using probs_valid [of 1 0 0 13 sample] by (simp add: gate_boundary_dataset_def)
  have run: "LabelBalancer default_config date ?ds sample =
      \<lparr>status = Completed,
       dest = foldl (\<lambda>tree i. run_task default_config date ?copied ?alloc i tree) ?copied [0, 1, 2]\<rparr>"
    unfolding LabelBalancer_counts Let_def c1 c2 pr
    by (simp add: default_config_def)
  let ?w = "map (\<lambda>w. snd (w_dest w)) (written (flow_state
      (DataAugmentation default_config date [''3_a.JPG''] (?alloc ! 0)
         (DATASET_NAME default_config @ ''/'' @ str_nat (0 + 1))
         (DEST_FOLDER default_config @ ''/'' @ str_nat (0 + 1)) (''L'' @ str_nat (0 + 1)))))"
  have tree: "foldl (\<lambda>tree i. run_task default_config date ?copied ?alloc i tree) ?copied [0, 1, 2]
      = [foldl cv_imwrite [''3_a.JPG''] ?w, [], [], dir_4 ?ds, [], []]"
    by (simp add: run_task_def Let_def gate_boundary_dataset_def DataAugmentation_empty)
  have "length ?w \<le> 12"
    by (simp add: DataAugmentation_count default_config_def)
  with imwrite_length [of "[''3_a.JPG'']" ?w]
  have "length (foldl cv_imwrite [''3_a.JPG''] ?w) \<le> 13" by simp
  then show ?thesis
    unfolding run tree
    by (simp add: category_1_output_def category_2_output_def gate_boundary_dataset_def)
qed

text \<open>
  Witness for the theorem on C1, at a sample the sampler can return: label 1 holds every image
  of category 1, its probability is 0, and the thirteen draws fall on the labels 2 and 3.
\<close>

theorem balance_fails_at_gate_boundary_witness:
  "is_choice [1, 2, 3] 13 [0, 1 / 2, 1 / 2] [2, 3, 2, 3, 2, 3, 2, 3, 2, 3, 2, 3, 2] \<and>
   status (LabelBalancer default_config ''110326'' gate_boundary_dataset
       [2, 3, 2, 3, 2, 3, 2, 3, 2, 3, 2, 3, 2]) = Completed \<and>
   category_1_output (dest (LabelBalancer default_config ''110326'' gate_boundary_dataset
       [2, 3, 2, 3, 2, 3, 2, 3, 2, 3, 2, 3, 2]))
     < category_2_output (dest (LabelBalancer default_config ''110326'' gate_boundary_dataset
       [2, 3, 2, 3, 2, 3, 2, 3, 2, 3, 2, 3, 2]))"
  using balance_fails_at_gate_boundary [of "''110326''" "[2, 3, 2, 3, 2, 3, 2, 3, 2, 3, 2, 3, 2]"]
  by (simp add: is_choice_def)

end
